theory Spec2Isabelle
  imports Main
begin

section \<open>Data model of \<open>src/main.py\<close>\<close>

text \<open>
  The program is a Ludo variant on a cross-shaped board of odd size \<open>n\<close>.  Python
  integers are unbounded, so coordinates and the board size are \<open>int\<close>; Python's
  \<open>//\<close> and \<open>%\<close> round towards minus infinity, as \<open>div\<close> and \<open>mod\<close> on \<open>int\<close> do.
\<close>

datatype BoardBox = EMPTY | WALL | PATH | HOME

text \<open>The exceptions the modelled code can raise.\<close>

datatype error = AssertionError | IndexError | ValueError

type_synonym coord = "int \<times> int"

text \<open>
  Figures are objects that are shared between a player's list and the caller, are
  compared by identity (\<open>list.remove\<close>) and are mutated in place (\<open>move_to\<close>).  They live
  in a store indexed by references; a reference always denotes an object, so the store
  is a total function, and \<open>fresh\<close> is the next unused reference.
\<close>

type_synonym fref = nat

record Figure =
  start_position :: coord
  position :: coord
  representation :: string

text \<open>
  Class \<open>Player\<close>.  The field \<open>home_position\<close> of the source is \<open>Player_home_position\<close>
  here, since \<open>Board\<close> has a method of the same name.
\<close>

record Player =
  Player_representation :: string
  Player_home_position :: coord
  figures :: "fref list"

text \<open>
  Class \<open>Board\<close>: \<open>self.n\<close>, the grid \<open>self.board\<close> (a list of rows), \<open>self.players\<close> and
  \<open>self.starts\<close>.  Players are held by value: \<open>add_player\<close> is the only place that
  appends to \<open>self.players\<close> and it appends a new object each time.
\<close>

record Board =
  Board_n :: int
  Board_board :: "BoardBox list list"
  players :: "Player list"
  starts :: "coord list"

record game =
  heap :: "fref \<Rightarrow> Figure"
  fresh :: fref
  the_board :: Board

section \<open>Board geometry\<close>

text \<open>
  \<open>Board.box_at\<close> (lines 166-176).  It reads only \<open>self.n\<close> and is called from
  \<open>_build_board\<close> while the board is being constructed, so the size is its first
  argument.  \<open>x in (0, self.n - 1)\<close> is \<open>x = 0 \<or> x = n - 1\<close>.
\<close>

definition box_at :: "int \<Rightarrow> int \<Rightarrow> int \<Rightarrow> BoardBox" where
  "box_at n x y =
     (let m = n div 2 in
      if x = m \<or> y = m then
        (if x = y then WALL
         else if (x = 0 \<or> x = n - 1) \<or> (y = 0 \<or> y = n - 1) then PATH
         else HOME)
      else if (x < m - 1 \<or> x > m + 1) \<and> (y < m - 1 \<or> y > m + 1) then EMPTY
      else PATH)"

text \<open>
  \<open>Board._build_board\<close> (lines 178-184): row \<open>y\<close> of the grid holds \<open>box_at(x, y)\<close> for
  \<open>x\<close> in \<open>range(n)\<close>; \<open>range(n)\<close> is empty when \<open>n \<le> 0\<close>, as \<open>[0..n - 1]\<close> is.
\<close>

definition build_board :: "int \<Rightarrow> BoardBox list list" where
  "build_board n = map (\<lambda>y. map (\<lambda>x. box_at n x y) [0..n - 1]) [0..n - 1]"

text \<open>
  \<open>Board.__init__\<close> (lines 83-91).  \<open>assert n % 2\<close> fails exactly when \<open>n % 2\<close> is
  \<open>0\<close>.
\<close>

definition Board_init :: "int \<Rightarrow> error + Board" where
  "Board_init n =
     (if n mod 2 = 0 then Inl AssertionError
      else Inr \<lparr>Board_n = n, Board_board = build_board n, players = [],
                starts = [(n div 2 + 1, 0), (n div 2 - 1, n - 1)]\<rparr>)"

text \<open>\<open>Board.max_figures\<close> (lines 93-95).\<close>

definition max_figures :: "Board \<Rightarrow> int" where
  "max_figures b = (Board_n b - 3) div 2"

text \<open>
  Indexing a Python list: a negative index counts from the end, and an index outside
  \<open>[-len, len - 1]\<close> raises \<open>IndexError\<close>.
\<close>

definition py_index :: "'a list \<Rightarrow> int \<Rightarrow> error + 'a" where
  "py_index xs i =
     (let l = int (length xs); j = (if i < 0 then l + i else i)
      in if 0 \<le> j \<and> j < l then Inr (xs ! nat j) else Inl IndexError)"

text \<open>The grid lookup \<open>self.board[i][j]\<close>.\<close>

definition grid_at :: "Board \<Rightarrow> int \<Rightarrow> int \<Rightarrow> error + BoardBox" where
  "grid_at b i j =
     (case py_index (Board_board b) i of
        Inl e \<Rightarrow> Inl e
      | Inr row \<Rightarrow> py_index row j)"

text \<open>
  \<open>Board.next_position\<close> (lines 120-152).  The candidate list \<open>posible_moves\<close> is built
  by lines 136-146; the loop of lines 148-150 returns the first candidate whose cell
  \<open>self.board[py][px]\<close> is \<open>PATH\<close>.  Line 131 tests \<open>y\<close>, as the source does.
\<close>

definition posible_moves :: "int \<Rightarrow> int \<Rightarrow> int \<Rightarrow> coord list" where
  "posible_moves n x y =
     (let m = n div 2 in
      (if x < m then (if y > 0 then [(x, y - 1)] else [])
       else if y < n - 1 then [(x, y + 1)] else []) @
      (if y < m then (if x < n - 1 then [(x + 1, y)] else [])
       else if x > 0 then [(x - 1, y)] else []))"

fun first_path :: "Board \<Rightarrow> coord list \<Rightarrow> error + coord option" where
  "first_path b [] = Inr None"
| "first_path b ((px, py) # ps) =
     (case grid_at b py px of
        Inl e \<Rightarrow> Inl e
      | Inr c \<Rightarrow> if c = PATH then Inr (Some (px, py)) else first_path b ps)"

definition Board_next_position :: "Board \<Rightarrow> int \<Rightarrow> int \<Rightarrow> error + coord option" where
  "Board_next_position b x y =
     (let n = Board_n b; m = n div 2 in
      if x = m \<and> y < m - 1 \<and> y \<noteq> 0 then Inr (Some (x, y + 1))
      else if x = m \<and> y > m + 1 \<and> y \<noteq> n - 1 then Inr (Some (x, y - 1))
      else if y = m \<and> x < m - 1 \<and> x \<noteq> 0 then Inr (Some (x + 1, y))
      else if y = m \<and> y > m + 1 \<and> y \<noteq> n - 1 then Inr (Some (x - 1, y))
      else
        (case grid_at b x y of
           Inl e \<Rightarrow> Inl e
         | Inr c \<Rightarrow>
             if c = HOME then Inr None
             else first_path b (posible_moves n x y)))"

text \<open>\<open>Board.home_position\<close> (lines 154-164).\<close>

definition home_position :: "Board \<Rightarrow> int \<Rightarrow> int \<Rightarrow> coord option" where
  "home_position b x y =
     (let n = Board_n b; m = n div 2 in
      if x = 0 then Some (1, m)
      else if x = n - 1 then Some (n - 2, m)
      else if y = 0 then Some (m, 1)
      else if y = n - 1 then Some (m, n - 2)
      else None)"

section \<open>Figures, players and occupancy\<close>

text \<open>\<open>Figure.is_home\<close> (lines 41-43).\<close>

definition is_home :: "Board \<Rightarrow> Figure \<Rightarrow> bool" where
  "is_home b fig = (box_at (Board_n b) (fst (position fig)) (snd (position fig)) = HOME)"

text \<open>\<open>Figure.move_to\<close> (lines 38-39).\<close>

definition move_to :: "Figure \<Rightarrow> coord \<Rightarrow> Figure" where
  "move_to fig p = fig\<lparr>position := p\<rparr>"

text \<open>\<open>Player.figure_at\<close> (lines 56-60): the first figure of the list at \<open>(x, y)\<close>.\<close>

definition Player_figure_at :: "(fref \<Rightarrow> Figure) \<Rightarrow> Player \<Rightarrow> int \<Rightarrow> int \<Rightarrow> fref option" where
  "Player_figure_at h p x y = find (\<lambda>r. position (h r) = (x, y)) (figures p)"

text \<open>\<open>Player.figures_finished\<close> (lines 62-66) and \<open>Player.has_finished\<close> (lines 71-72).\<close>

definition figures_finished :: "(fref \<Rightarrow> Figure) \<Rightarrow> Board \<Rightarrow> Player \<Rightarrow> bool" where
  "figures_finished h b p = list_all (\<lambda>r. is_home b (h r)) (figures p)"

definition has_finished :: "(fref \<Rightarrow> Figure) \<Rightarrow> Board \<Rightarrow> Player \<Rightarrow> bool" where
  "has_finished h b p =
     (int (length (figures p)) = max_figures b \<and> figures_finished h b p)"

text \<open>
  \<open>Player.delete_figure\<close> (lines 74-75): \<open>list.remove\<close> deletes the first occurrence
  and raises \<open>ValueError\<close> when there is none.
\<close>

definition delete_figure :: "Player \<Rightarrow> fref \<Rightarrow> error + Player" where
  "delete_figure p f =
     (if f \<in> set (figures p) then Inr (p\<lparr>figures := remove1 f (figures p)\<rparr>)
      else Inl ValueError)"

text \<open>
  \<open>Board.figure_at\<close> (lines 97-102): the players are scanned in order; the player is
  returned as its index in \<open>self.players\<close>.
\<close>

fun figure_at_from :: "(fref \<Rightarrow> Figure) \<Rightarrow> Player list \<Rightarrow> nat \<Rightarrow> int \<Rightarrow> int \<Rightarrow> fref option \<times> nat option" where
  "figure_at_from h [] i x y = (None, None)"
| "figure_at_from h (p # ps) i x y =
     (case Player_figure_at h p x y of
        Some f \<Rightarrow> (Some f, Some i)
      | None \<Rightarrow> figure_at_from h ps (Suc i) x y)"

definition Board_figure_at :: "game \<Rightarrow> int \<Rightarrow> int \<Rightarrow> fref option \<times> nat option" where
  "Board_figure_at s x y = figure_at_from (heap s) (players (the_board s)) 0 x y"

text \<open>
  \<open>Board.move_figure\<close> (lines 104-109).  The figure found at \<open>(x, y)\<close> is removed from
  the list of the player it was found in, then the moving figure's position is set.
  The result is the returned \<open>del_figure\<close> and the state after the call.
\<close>

definition Board_move_figure :: "game \<Rightarrow> fref \<Rightarrow> int \<Rightarrow> int \<Rightarrow> error + (fref option \<times> game)" where
  "Board_move_figure s figure x y =
     (let b = the_board s;
          moved = (\<lambda>t. t\<lparr>heap := (heap t)(figure := move_to (heap t figure) (x, y))\<rparr>)
      in case Board_figure_at s x y of
           (Some del_figure, Some i) \<Rightarrow>
             (case delete_figure (players b ! i) del_figure of
                Inl e \<Rightarrow> Inl e
              | Inr p \<Rightarrow>
                  Inr (Some del_figure,
                       moved (s\<lparr>the_board := b\<lparr>players := (players b)[i := p]\<rparr>\<rparr>)))
         | (del_figure, _) \<Rightarrow> Inr (del_figure, moved s))"

text \<open>
  \<open>Player.add_figure\<close> (lines 53-54) creates a new figure object at the player's home
  position and appends it to the player's list.
\<close>

definition add_figure :: "game \<Rightarrow> Player \<Rightarrow> game \<times> Player" where
  "add_figure s p =
     (let r = fresh s;
          fig = \<lparr>start_position = Player_home_position p,
                 position = Player_home_position p,
                 representation = Player_representation p\<rparr>
      in (s\<lparr>heap := (heap s)(r := fig), fresh := Suc r\<rparr>,
          p\<lparr>figures := figures p @ [r]\<rparr>))"

text \<open>
  \<open>Board.add_player\<close> (lines 111-118) with an explicit representation (the callers in
  \<open>simulacia\<close> pass \<open>'A'\<close> and \<open>'B'\<close>).  \<open>self.starts[len(self.players)]\<close> raises
  \<open>IndexError\<close> for a third player.
\<close>

definition add_player :: "game \<Rightarrow> string \<Rightarrow> error + game" where
  "add_player s rep =
     (let b = the_board s in
      case py_index (starts b) (int (length (players b))) of
        Inl e \<Rightarrow> Inl e
      | Inr home_pos \<Rightarrow>
          (let (s1, p) = add_figure s
                 \<lparr>Player_representation = rep, Player_home_position = home_pos, figures = []\<rparr>
           in Inr (s1\<lparr>the_board := (the_board s1)\<lparr>players := players (the_board s1) @ [p]\<rparr>\<rparr>)))"

text \<open>\<open>gensachovnicu\<close> (lines 203-204) with an empty store of figures.\<close>

definition new_game :: "int \<Rightarrow> error + game" where
  "new_game n =
     (case Board_init n of
        Inl e \<Rightarrow> Inl e
      | Inr b \<Rightarrow>
          Inr \<lparr>heap = (\<lambda>_. \<lparr>start_position = (0, 0), position = (0, 0), representation = []\<rparr>),
               fresh = 0, the_board = b\<rparr>)"

section \<open>Moving a figure by several steps\<close>

text \<open>
  The loop of \<open>Figure.next_position\<close> (lines 27-32): \<open>walk b start k pos\<close> is the value of
  the local \<open>position\<close> after \<open>k\<close> iterations that began at \<open>pos\<close>, \<open>Inr None\<close> when the
  loop returned \<open>None\<close> early.  A result of \<open>Board.next_position\<close> equal to the figure's
  \<open>start_position\<close> is replaced by \<open>board.home_position\<close> of it.
\<close>

fun walk :: "Board \<Rightarrow> coord \<Rightarrow> nat \<Rightarrow> coord \<Rightarrow> error + coord option" where
  "walk b start 0 pos = Inr (Some pos)"
| "walk b start (Suc k) pos =
     (case Board_next_position b (fst pos) (snd pos) of
        Inl e \<Rightarrow> Inl e
      | Inr r \<Rightarrow>
          (case (if r = Some start then home_position b (fst start) (snd start) else r) of
             None \<Rightarrow> Inr None
           | Some p \<Rightarrow> walk b start k p))"

text \<open>
  \<open>Figure.next_position\<close> (lines 24-36).  \<open>range(moves)\<close> is empty for \<open>moves \<le> 0\<close>.
  After the loop, a destination that holds a figure (any figure that \<open>board.figure_at\<close>
  finds) and is a HOME cell gives \<open>None\<close>.
\<close>

definition Figure_next_position :: "game \<Rightarrow> fref \<Rightarrow> int \<Rightarrow> error + coord option" where
  "Figure_next_position s self moves =
     (let b = the_board s in
      case walk b (start_position (heap s self)) (nat moves) (position (heap s self)) of
        Inl e \<Rightarrow> Inl e
      | Inr None \<Rightarrow> Inr None
      | Inr (Some p) \<Rightarrow>
          (case Board_figure_at s (fst p) (snd p) of
             (figure, _) \<Rightarrow>
               if figure \<noteq> None \<and> box_at (Board_n b) (fst p) (snd p) = HOME then Inr None
               else Inr (Some p)))"

text \<open>
  The method assigns to no attribute and changes no list of \<open>self\<close> or \<open>board\<close>
  (\<open>posible_moves\<close> and \<open>position\<close> are locals), so a call hands back the state it
  received together with its result.
\<close>

definition call_Figure_next_position :: "game \<Rightarrow> fref \<Rightarrow> int \<Rightarrow> (error + coord option) \<times> game" where
  "call_Figure_next_position s self moves = (Figure_next_position s self moves, s)"

text \<open>
  The move of a turn in \<open>simulacia\<close> (lines 228-235): the destination is computed, and
  only a destination that is not \<open>None\<close> is passed to \<open>board.move_figure\<close>.
\<close>

definition attempt_move :: "game \<Rightarrow> fref \<Rightarrow> int \<Rightarrow> error + game" where
  "attempt_move s figure dice =
     (case call_Figure_next_position s figure dice of
        (Inl e, _) \<Rightarrow> Inl e
      | (Inr None, s1) \<Rightarrow> Inr s1
      | (Inr (Some next_move), s1) \<Rightarrow>
          (case Board_move_figure s1 figure (fst next_move) (snd next_move) of
             Inl e \<Rightarrow> Inl e
           | Inr (_, s2) \<Rightarrow> Inr s2))"

section \<open>Notions used by the properties\<close>

text \<open>All figures of all players, in the order \<open>Board.figure_at\<close> scans them.\<close>

definition all_figures :: "game \<Rightarrow> fref list" where
  "all_figures s = concat (map figures (players (the_board s)))"

text \<open>A coordinate is occupied when some figure of some player stands on it.\<close>

definition occupied :: "game \<Rightarrow> coord \<Rightarrow> bool" where
  "occupied s p = list_ex (\<lambda>r. position (heap s r) = p) (all_figures s)"

definition occupied_by_other :: "game \<Rightarrow> fref \<Rightarrow> coord \<Rightarrow> bool" where
  "occupied_by_other s self p =
     list_ex (\<lambda>r. r \<noteq> self \<and> position (heap s r) = p) (all_figures s)"

text \<open>
  Applying \<open>Board.next_position\<close> \<open>k\<close> times in a row, with no redirection; \<open>Inr None\<close> as
  soon as one application returns \<open>None\<close>.
\<close>

fun iter_next :: "Board \<Rightarrow> nat \<Rightarrow> coord \<Rightarrow> error + coord option" where
  "iter_next b 0 p = Inr (Some p)"
| "iter_next b (Suc k) p =
     (case Board_next_position b (fst p) (snd p) of
        Inl e \<Rightarrow> Inl e
      | Inr None \<Rightarrow> Inr None
      | Inr (Some q) \<Rightarrow> iter_next b k q)"

text \<open>The number of cells of the track: \<open>4 * (N - 1)\<close>.\<close>

definition perimeter_length :: "int \<Rightarrow> nat" where
  "perimeter_length n = nat (4 * (n - 1))"

text \<open>
  Proof devices.  \<open>next_pure\<close> is \<open>Board.next_position\<close> with the grid lookups replaced by
  \<open>box_at\<close> and the unreachable branch of line 131 left out; it is proved equal to
  \<open>Board_next_position\<close> on the coordinates of a constructed board.  \<open>track m k\<close> is the
  \<open>k\<close>-th cell of the track of the board of size \<open>2 * m + 1\<close>, counted from the first
  starting coordinate \<open>(m + 1, 0)\<close>.
\<close>

definition next_pure :: "int \<Rightarrow> int \<Rightarrow> int \<Rightarrow> coord option" where
  "next_pure n x y =
     (let m = n div 2 in
      if x = m \<and> y < m - 1 \<and> y \<noteq> 0 then Some (x, y + 1)
      else if x = m \<and> y > m + 1 \<and> y \<noteq> n - 1 then Some (x, y - 1)
      else if y = m \<and> x < m - 1 \<and> x \<noteq> 0 then Some (x + 1, y)
      else if box_at n x y = HOME then None
      else find (\<lambda>(px, py). box_at n px py = PATH) (posible_moves n x y))"

definition track :: "int \<Rightarrow> int \<Rightarrow> coord" where
  "track m k =
     (if k < m then (m + 1, k)
      else if k < 2 * m - 1 then (k + 2, m - 1)
      else if k = 2 * m - 1 then (2 * m, m)
      else if k < 3 * m then (4 * m - k, m + 1)
      else if k < 4 * m - 1 then (m + 1, k - 2 * m + 2)
      else if k = 4 * m - 1 then (m, 2 * m)
      else if k < 5 * m then (m - 1, 6 * m - k)
      else if k < 6 * m - 1 then (6 * m - 2 - k, m + 1)
      else if k = 6 * m - 1 then (0, m)
      else if k < 7 * m then (k - 6 * m, m - 1)
      else if k < 8 * m - 1 then (m - 1, 8 * m - 2 - k)
      else (m, 0))"

section \<open>Example states\<close>

text \<open>
  The game on the board of size 5 after \<open>add_player('A')\<close> and \<open>add_player('B')\<close>, with
  the figure of player A standing on \<open>pa\<close> and the figure of player B on \<open>pb\<close>.
\<close>

definition example_game :: "coord \<Rightarrow> coord \<Rightarrow> game" where
  "example_game pa pb =
     \<lparr>heap = (\<lambda>_. \<lparr>start_position = (0, 0), position = (0, 0), representation = []\<rparr>)
         (0 := \<lparr>start_position = (3, 0), position = pa, representation = ''A''\<rparr>,
          1 := \<lparr>start_position = (1, 4), position = pb, representation = ''B''\<rparr>),
      fresh = 2,
      the_board = \<lparr>Board_n = 5, Board_board = build_board 5,
        players = [\<lparr>Player_representation = ''A'', Player_home_position = (3, 0), figures = [0]\<rparr>,
                   \<lparr>Player_representation = ''B'', Player_home_position = (1, 4), figures = [1]\<rparr>],
        starts = [(3, 0), (1, 4)]\<rparr>\<rparr>"

text \<open>
  The invariant of the figure lists: \<open>add_figure\<close> creates a new object for every figure,
  so no figure is listed twice, and every listed reference has been allocated.
\<close>

definition game_ok :: "game \<Rightarrow> bool" where
  "game_ok s = (distinct (all_figures s) \<and> list_all (\<lambda>r. r < fresh s) (all_figures s))"

section \<open>The classification rule of the specification\<close>

text \<open>
  The rule as the specification words it, to be compared with \<open>box_at\<close>: with
  \<open>m = N div 2\<close>, a coordinate is on the cross axis when \<open>x = m\<close> or \<open>y = m\<close>; on the axis
  the centre is WALL, a coordinate touching the edge is PATH, the rest is HOME; off the
  axis a coordinate is EMPTY when both \<open>x\<close> and \<open>y\<close> are strictly outside the band
  \<open>[m - 1, m + 1]\<close>, and PATH otherwise.
\<close>

definition outside_band :: "int \<Rightarrow> int \<Rightarrow> bool" where
  "outside_band m v = (\<not> (m - 1 \<le> v \<and> v \<le> m + 1))"

definition touches_edge :: "int \<Rightarrow> int \<Rightarrow> int \<Rightarrow> bool" where
  "touches_edge N x y = (x \<in> {0, N - 1} \<or> y \<in> {0, N - 1})"

definition classify_spec :: "int \<Rightarrow> int \<Rightarrow> int \<Rightarrow> BoardBox" where
  "classify_spec N x y =
     (let m = N div 2 in
      if x = m \<or> y = m then
        (if x = y then WALL else if touches_edge N x y then PATH else HOME)
      else if outside_band m x \<and> outside_band m y then EMPTY
      else PATH)"

section \<open>Well-formed boards\<close>

text \<open>
  A board as the constructor leaves it for an odd size of at least 5; \<open>add_player\<close> and
  \<open>move_figure\<close> change neither the size, the grid nor the starting coordinates.
\<close>

definition board_ok :: "Board \<Rightarrow> bool" where
  "board_ok b =
     (Board_n b mod 2 = 1 \<and> 5 \<le> Board_n b \<and>
      Board_board b = build_board (Board_n b) \<and>
      starts b = [(Board_n b div 2 + 1, 0), (Board_n b div 2 - 1, Board_n b - 1)])"

definition in_range :: "int \<Rightarrow> int \<Rightarrow> int \<Rightarrow> bool" where
  "in_range n x y = (0 \<le> x \<and> x \<le> n - 1 \<and> 0 \<le> y \<and> y \<le> n - 1)"

section \<open>Basic facts\<close>

lemma box_at_classify: "box_at N x y = classify_spec N x y"
  by (simp add: box_at_def classify_spec_def outside_band_def touches_edge_def Let_def not_le)

lemma box_at_sym: "box_at N x y = box_at N y x"
  by (auto simp add: box_at_def Let_def)

lemma py_index_in_range:
  "0 \<le> i \<Longrightarrow> i < int (length xs) \<Longrightarrow> py_index xs i = Inr (xs ! nat i)"
  by (simp add: py_index_def Let_def)

lemma grid_at_build:
  assumes "Board_board b = build_board n" and "in_range n i j"
  shows "grid_at b i j = Inr (box_at n j i)"
proof -
  from assms(2) have i: "0 \<le> i" "i \<le> n - 1" and j: "0 \<le> j" "j \<le> n - 1"
    by (simp_all add: in_range_def)
  have len: "length (build_board n) = nat n"
    by (simp add: build_board_def)
  have row: "build_board n ! nat i = map (\<lambda>x. box_at n x i) [0..n - 1]"
    using i by (simp add: build_board_def)
  have "py_index (build_board n) i = Inr (map (\<lambda>x. box_at n x i) [0..n - 1])"
    using i len row by (simp add: py_index_in_range)
  moreover have "py_index (map (\<lambda>x. box_at n x i) [0..n - 1]) j = Inr (box_at n j i)"
    using j by (simp add: py_index_in_range)
  ultimately show ?thesis
    using assms(1) by (simp add: grid_at_def)
qed

lemma board_ok_init:
  "n mod 2 = 1 \<Longrightarrow> 5 \<le> n \<Longrightarrow> \<exists>b. Board_init n = Inr b \<and> board_ok b \<and> Board_n b = n"
  by (simp add: Board_init_def board_ok_def)

section \<open>The step function on a constructed board\<close>

lemma first_path_find:
  assumes "Board_board b = build_board n"
  shows "\<forall>(px, py) \<in> set ps. in_range n px py \<Longrightarrow>
     first_path b ps = Inr (find (\<lambda>(px, py). box_at n px py = PATH) ps)"
proof (induction ps)
  case Nil
  then show ?case by simp
next
  case (Cons a ps)
  obtain px py where a: "a = (px, py)" by (cases a)
  from Cons.prems a have r: "in_range n py px"
    by (simp add: in_range_def)
  have g: "grid_at b py px = Inr (box_at n px py)"
    using grid_at_build [OF assms r] .
  from Cons show ?case using a g by simp
qed

lemma posible_moves_in_range:
  "in_range n x y \<Longrightarrow> \<forall>(px, py) \<in> set (posible_moves n x y). in_range n px py"
  by (auto simp add: posible_moves_def in_range_def Let_def)

lemma Board_next_position_pure:
  assumes "Board_board b = build_board (Board_n b)" and "in_range (Board_n b) x y"
  shows "Board_next_position b x y = Inr (next_pure (Board_n b) x y)"
proof -
  have g: "grid_at b x y = Inr (box_at (Board_n b) x y)"
    using grid_at_build [OF assms(1) assms(2)] box_at_sym [of "Board_n b" x y] by simp
  have f: "first_path b (posible_moves (Board_n b) x y) =
      Inr (find (\<lambda>(px, py). box_at (Board_n b) px py = PATH) (posible_moves (Board_n b) x y))"
    using first_path_find [OF assms(1) posible_moves_in_range [OF assms(2)]] .
  show ?thesis
    unfolding Board_next_position_def next_pure_def Let_def
    using g f by auto
qed

lemma track_path:
  "2 \<le> m \<Longrightarrow> 0 \<le> k \<Longrightarrow> k < 8 * m \<Longrightarrow> box_at (2 * m + 1) (fst (track m k)) (snd (track m k)) = PATH"
  by (simp add: track_def box_at_def Let_def)

lemma track_in_range:
  "2 \<le> m \<Longrightarrow> 0 \<le> k \<Longrightarrow> k < 8 * m \<Longrightarrow> in_range (2 * m + 1) (fst (track m k)) (snd (track m k))"
  by (simp add: track_def in_range_def)

lemma track_step:
  "2 \<le> m \<Longrightarrow> 0 \<le> k \<Longrightarrow> k < 8 * m - 1 \<Longrightarrow>
    next_pure (2 * m + 1) (fst (track m k)) (snd (track m k)) = Some (track m (k + 1))"
  by (simp add: track_def next_pure_def posible_moves_def box_at_def Let_def)

lemma track_wrap:
  "2 \<le> m \<Longrightarrow> next_pure (2 * m + 1) (fst (track m (8 * m - 1))) (snd (track m (8 * m - 1))) = Some (track m 0)"
  by (simp add: track_def next_pure_def posible_moves_def box_at_def Let_def)

lemma track_first_start: "2 \<le> m \<Longrightarrow> 0 \<le> k \<Longrightarrow> k < 8 * m \<Longrightarrow> track m k = (m + 1, 0) \<longleftrightarrow> k = 0"
  by (simp add: track_def)

lemma track_second_start: "2 \<le> m \<Longrightarrow> 0 \<le> k \<Longrightarrow> k < 8 * m \<Longrightarrow> track m k = (m - 1, 2 * m) \<longleftrightarrow> k = 4 * m"
  by (auto simp add: track_def)

lemma track_next:
  assumes "2 \<le> m" "0 \<le> k" "k < 8 * m"
  shows "next_pure (2 * m + 1) (fst (track m k)) (snd (track m k)) = Some (track m ((k + 1) mod (8 * m)))"
proof (cases "k = 8 * m - 1")
  case True
  then show ?thesis using track_wrap [OF assms(1)] by simp
next
  case False
  with assms have "k < 8 * m - 1" by simp
  moreover from this assms have "(k + 1) mod (8 * m) = k + 1" by simp
  ultimately show ?thesis using track_step [OF assms(1,2)] by simp
qed

section \<open>Walking along the track\<close>

lemma board_ok_half:
  assumes "board_ok b"
  shows "Board_n b = 2 * (Board_n b div 2) + 1" and "2 \<le> Board_n b div 2"
    and "Board_board b = build_board (Board_n b)"
proof -
  from assms have o: "Board_n b mod 2 = 1" and g: "5 \<le> Board_n b"
    and "Board_board b = build_board (Board_n b)"
    by (simp_all add: board_ok_def)
  then show "Board_board b = build_board (Board_n b)" by simp
  from o show "Board_n b = 2 * (Board_n b div 2) + 1" by presburger
  from g show "2 \<le> Board_n b div 2" by presburger
qed

lemma Board_next_position_track:
  assumes "board_ok b" and "m = Board_n b div 2" and "0 \<le> k" and "k < 8 * m"
  shows "Board_next_position b (fst (track m k)) (snd (track m k)) =
           Inr (Some (track m ((k + 1) mod (8 * m))))"
proof -
  have n: "Board_n b = 2 * m + 1" and m: "2 \<le> m"
    using board_ok_half(1,2) [OF assms(1)] assms(2) by simp_all
  have r: "in_range (Board_n b) (fst (track m k)) (snd (track m k))"
    using track_in_range [OF m assms(3,4)] n by simp
  show ?thesis
    using Board_next_position_pure [OF board_ok_half(3) [OF assms(1)] r]
      track_next [OF m assms(3,4)] n by simp
qed

lemma iter_next_track:
  assumes "board_ok b" and "m = Board_n b div 2"
  shows "0 \<le> k \<Longrightarrow> k < 8 * m \<Longrightarrow>
     iter_next b j (track m k) = Inr (Some (track m ((k + int j) mod (8 * m))))"
proof (induction j arbitrary: k)
  case 0
  then show ?case by simp
next
  case (Suc j)
  have m: "2 \<le> m" using board_ok_half(2) [OF assms(1)] assms(2) by simp
  let ?k' = "(k + 1) mod (8 * m)"
  have k': "0 \<le> ?k'" "?k' < 8 * m" using m by simp_all
  have s: "Board_next_position b (fst (track m k)) (snd (track m k)) = Inr (Some (track m ?k'))"
    using Board_next_position_track [OF assms Suc.prems] .
  have e: "(?k' + int j) mod (8 * m) = (k + int (Suc j)) mod (8 * m)"
  proof -
    have "(?k' + int j) mod (8 * m) = (k + 1 + int j) mod (8 * m)"
      by (rule mod_add_left_eq)
    then show ?thesis by (simp add: add.assoc)
  qed
  show ?case
    using s Suc.IH [OF k'] e by simp
qed

lemma track_starts:
  "2 \<le> m \<Longrightarrow> track m 0 = (m + 1, 0)" "2 \<le> m \<Longrightarrow> track m (4 * m) = (m - 1, 2 * m)"
  by (simp_all add: track_def)

lemma starts_on_track:
  assumes "board_ok b" and "m = Board_n b div 2" and "p \<in> set (starts b)"
  shows "p = track m 0 \<or> p = track m (4 * m)"
proof -
  have m: "2 \<le> m" and n: "Board_n b = 2 * m + 1"
    using board_ok_half(1,2) [OF assms(1)] assms(2) by simp_all
  have h: "Board_n b div 2 = m" and e: "Board_n b - 1 = 2 * m"
    using assms(2) n by simp_all
  from assms(1) have "starts b = [(Board_n b div 2 + 1, 0), (Board_n b div 2 - 1, Board_n b - 1)]"
    by (simp add: board_ok_def)
  then have "starts b = [(m + 1, 0), (m - 1, 2 * m)]"
    by (simp only: h e)
  with assms(3) have "p = (m + 1, 0) \<or> p = (m - 1, 2 * m)"
    by auto
  then show ?thesis using track_starts [OF m] by simp
qed

lemma perimeter_length_half:
  "2 \<le> m \<Longrightarrow> int (perimeter_length (2 * m + 1)) = 8 * m"
  by (simp add: perimeter_length_def)

section \<open>The loop of \<open>Figure.next_position\<close>\<close>

lemma walk_add:
  "walk b st (i + j) pos =
     (case walk b st i pos of
        Inl e \<Rightarrow> Inl e
      | Inr None \<Rightarrow> Inr None
      | Inr (Some p) \<Rightarrow> walk b st j p)"
  by (induction i arbitrary: pos) (simp_all split: sum.split option.split)

lemma mod_shift_neq:
  fixes c :: int
  assumes "0 \<le> j0" "j0 < c" "1 \<le> i" "i < c"
  shows "(j0 + i) mod c \<noteq> j0"
proof (cases "j0 + i < c")
  case True
  with assms(1,3) have "(j0 + i) mod c = j0 + i"
    by (intro mod_pos_pos_trivial) simp_all
  with assms(3) show ?thesis by simp
next
  case False
  with assms(2,4) have "(j0 + i - c) mod c = j0 + i - c"
    by (intro mod_pos_pos_trivial) simp_all
  moreover have "(j0 + i - c) mod c = (j0 + i) mod c"
    by (rule minus_mod_self2)
  ultimately have "(j0 + i) mod c = j0 + i - c" by (simp only:)
  with assms(4) show ?thesis by simp
qed

lemma track_eq_start:
  assumes "2 \<le> m" and "j0 = 0 \<or> j0 = 4 * m" and "0 \<le> k" and "k < 8 * m"
  shows "track m k = track m j0 \<longleftrightarrow> k = j0"
proof (cases "j0 = 0")
  case True
  then have "track m j0 = (m + 1, 0)" using track_starts(1) [OF assms(1)] by simp
  then show ?thesis using track_first_start [OF assms(1,3,4)] True by simp
next
  case False
  with assms(2) have j: "j0 = 4 * m" by simp
  then have "track m j0 = (m - 1, 2 * m)" using track_starts(2) [OF assms(1)] by simp
  then show ?thesis using track_second_start [OF assms(1,3,4)] j by simp
qed

lemma walk_track_aux:
  assumes step: "\<And>k. 0 \<le> k \<Longrightarrow> k < 8 * m \<Longrightarrow>
        Board_next_position b (fst (track m k)) (snd (track m k)) =
          Inr (Some (track m ((k + 1) mod (8 * m))))"
    and inj: "\<And>k. 0 \<le> k \<Longrightarrow> k < 8 * m \<Longrightarrow> (track m k = st) = (k = j0)"
    and m: "2 \<le> m"
  shows "0 \<le> k \<Longrightarrow> k < 8 * m \<Longrightarrow>
     (\<And>i. 1 \<le> i \<Longrightarrow> i \<le> int j \<Longrightarrow> (k + i) mod (8 * m) \<noteq> j0) \<Longrightarrow>
     walk b st j (track m k) = Inr (Some (track m ((k + int j) mod (8 * m))))"
proof (induction j arbitrary: k)
  case 0
  then show ?case by simp
next
  case (Suc j)
  define k' where "k' = (k + 1) mod (8 * m)"
  have k': "0 \<le> k'" "k' < 8 * m" using m by (simp_all add: k'_def)
  have s: "Board_next_position b (fst (track m k)) (snd (track m k)) = Inr (Some (track m k'))"
    using step [OF Suc.prems(1,2)] by (simp add: k'_def)
  have "k' \<noteq> j0" using Suc.prems(3) [of 1] by (simp add: k'_def)
  then have ne: "track m k' \<noteq> st"
    using inj [OF k'] by simp
  have e: "(k' + i) mod (8 * m) = (k + (1 + i)) mod (8 * m)" for i
  proof -
    have "(k' + i) mod (8 * m) = (k + 1 + i) mod (8 * m)"
      unfolding k'_def by (rule mod_add_left_eq)
    then show ?thesis by (simp only: add.assoc)
  qed
  have c: "(k' + i) mod (8 * m) \<noteq> j0" if "1 \<le> i" "i \<le> int j" for i
  proof -
    have "(k + (1 + i)) mod (8 * m) \<noteq> j0"
      using Suc.prems(3) [of "1 + i"] that by simp
    then show ?thesis unfolding e .
  qed
  have w: "walk b st j (track m k') = Inr (Some (track m ((k' + int j) mod (8 * m))))"
    using Suc.IH [OF k' c] by simp
  have i: "k + int (Suc j) = k + (1 + int j)" by simp
  have "walk b st (Suc j) (track m k) = walk b st j (track m k')"
    using s ne by simp
  also have "\<dots> = Inr (Some (track m ((k + int (Suc j)) mod (8 * m))))"
    unfolding w e i ..
  finally show ?case .
qed

lemma full_circuit_aux:
  assumes step: "\<And>k. 0 \<le> k \<Longrightarrow> k < 8 * m \<Longrightarrow>
        Board_next_position b (fst (track m k)) (snd (track m k)) =
          Inr (Some (track m ((k + 1) mod (8 * m))))"
    and inj: "\<And>k. 0 \<le> k \<Longrightarrow> k < 8 * m \<Longrightarrow> (track m k = st) = (k = j0)"
    and m: "2 \<le> m" and j0: "0 \<le> j0" "j0 < 8 * m" and st: "st = track m j0"
    and home: "home_position b (fst st) (snd st) = Some h"
  shows "walk b st (nat (8 * m)) st = Inr (Some h)"
proof -
  define a where "a = nat (8 * m - 1)"
  define k1 where "k1 = (j0 + int a) mod (8 * m)"
  have a: "int a = 8 * m - 1" and n: "nat (8 * m) = a + 1"
    using m by (simp_all add: a_def)
  have k1: "0 \<le> k1" "k1 < 8 * m" using m by (simp_all add: k1_def)
  have c: "(j0 + i) mod (8 * m) \<noteq> j0" if "1 \<le> i" "i \<le> int a" for i
    using mod_shift_neq [OF j0 that(1)] that(2) a by simp
  have w: "walk b st a (track m j0) = Inr (Some (track m k1))"
    unfolding k1_def using walk_track_aux [OF step inj m j0 c] by blast
  have "(k1 + 1) mod (8 * m) = (j0 + int a + 1) mod (8 * m)"
    unfolding k1_def by (rule mod_add_left_eq)
  also have "\<dots> = (j0 + 8 * m) mod (8 * m)" using a by simp
  also have "\<dots> = j0" using j0 by simp
  finally have e: "(k1 + 1) mod (8 * m) = j0" .
  have s: "Board_next_position b (fst (track m k1)) (snd (track m k1)) = Inr (Some st)"
    using step [OF k1] e st by simp
  have l: "walk b st 1 (track m k1) = Inr (Some h)"
    using s home by simp
  have "walk b st (a + 1) st =
      (case walk b st a st of Inl e \<Rightarrow> Inl e | Inr None \<Rightarrow> Inr None
       | Inr (Some p) \<Rightarrow> walk b st 1 p)"
    by (rule walk_add)
  also have "\<dots> = walk b st 1 (track m k1)"
    using w st by simp
  finally show ?thesis using l n by simp
qed

lemma home_position_first_start:
  assumes "2 \<le> m" and "Board_n b = 2 * m + 1"
  shows "home_position b (m + 1) 0 = Some (m, 1)" and "box_at (Board_n b) m 1 = HOME"
  using assms by (simp_all add: home_position_def box_at_def)

lemma home_position_second_start:
  assumes "2 \<le> m" and "Board_n b = 2 * m + 1"
  shows "home_position b (m - 1) (Board_n b - 1) = Some (m, Board_n b - 2)"
    and "box_at (Board_n b) m (Board_n b - 2) = HOME"
proof -
  have d: "(2 * m + 1) div 2 = m" by simp
  show "home_position b (m - 1) (Board_n b - 1) = Some (m, Board_n b - 2)"
    unfolding home_position_def Let_def assms(2) d using assms(1) by simp
  show "box_at (Board_n b) m (Board_n b - 2) = HOME"
    unfolding box_at_def Let_def assms(2) d using assms(1) by simp
qed

section \<open>Occupancy\<close>

lemma Player_figure_at_None:
  "Player_figure_at h p x y = None \<longleftrightarrow> \<not> list_ex (\<lambda>r. position (h r) = (x, y)) (figures p)"
  by (auto simp add: Player_figure_at_def find_None_iff list_ex_iff)

lemma Player_figure_at_Some:
  "Player_figure_at h p x y = Some d \<Longrightarrow> d \<in> set (figures p) \<and> position (h d) = (x, y)"
  by (auto simp add: Player_figure_at_def find_Some_iff)

lemma figure_at_from_fst_None:
  "fst (figure_at_from h ps i x y) = None \<longleftrightarrow>
     \<not> list_ex (\<lambda>r. position (h r) = (x, y)) (concat (map figures ps))"
proof (induction ps arbitrary: i)
  case Nil
  then show ?case by simp
next
  case (Cons p ps)
  show ?case
  proof (cases "Player_figure_at h p x y")
    case None
    then show ?thesis
      using Cons.IH [of "Suc i"] Player_figure_at_None [of h p x y]
      by (auto simp add: list_ex_iff)
  next
    case (Some d)
    then show ?thesis
      using Player_figure_at_Some [OF Some] by (auto simp add: list_ex_iff)
  qed
qed

lemma figure_at_from_Some:
  "figure_at_from h ps i x y = (Some d, r) \<Longrightarrow>
     \<exists>j < length ps. r = Some (i + j) \<and> d \<in> set (figures (ps ! j)) \<and> position (h d) = (x, y)"
proof (induction ps arbitrary: i)
  case Nil
  then show ?case by simp
next
  case (Cons p ps)
  show ?case
  proof (cases "Player_figure_at h p x y")
    case None
    with Cons.prems have "figure_at_from h ps (Suc i) x y = (Some d, r)" by simp
    from Cons.IH [OF this] obtain j where j: "j < length ps" "r = Some (Suc i + j)"
      "d \<in> set (figures (ps ! j))" "position (h d) = (x, y)" by blast
    then have "Suc j < length (p # ps) \<and> r = Some (i + Suc j)
        \<and> d \<in> set (figures ((p # ps) ! Suc j)) \<and> position (h d) = (x, y)" by simp
    then show ?thesis by blast
  next
    case (Some d')
    with Cons.prems have "d' = d" "r = Some i" by simp_all
    then have "0 < length (p # ps) \<and> r = Some (i + 0)
        \<and> d \<in> set (figures ((p # ps) ! 0)) \<and> position (h d) = (x, y)"
      using Player_figure_at_Some [OF Some] by simp
    then show ?thesis by blast
  qed
qed

lemma figure_at_from_None: "figure_at_from h ps i x y = (None, r) \<Longrightarrow> r = None"
  by (induction ps arbitrary: i) (auto split: option.splits)

lemma Board_figure_at_occupied:
  "fst (Board_figure_at s x y) = None \<longleftrightarrow> \<not> occupied s (x, y)"
  by (simp add: Board_figure_at_def occupied_def all_figures_def figure_at_from_fst_None)

lemma walk_None_later:
  assumes "walk b st i pos = Inr (Some p)" and "walk b st 1 p = Inr None" and "i < k"
  shows "walk b st k pos = Inr None"
proof -
  from assms(3) obtain r where k: "k = i + (1 + r)"
    using less_imp_Suc_add by fastforce
  have "walk b st (1 + r) p =
      (case walk b st 1 p of Inl e \<Rightarrow> Inl e | Inr None \<Rightarrow> Inr None
       | Inr (Some p') \<Rightarrow> walk b st r p')"
    by (rule walk_add)
  then have t: "walk b st (1 + r) p = Inr None"
    by (simp only: assms(2) sum.case option.case)
  have "walk b st (i + (1 + r)) pos =
      (case walk b st i pos of Inl e \<Rightarrow> Inl e | Inr None \<Rightarrow> Inr None
       | Inr (Some p') \<Rightarrow> walk b st (1 + r) p')"
    by (rule walk_add)
  then show ?thesis
    by (simp only: k assms(1) t sum.case option.case)
qed

lemma walk_one_None:
  "Board_next_position b (fst p) (snd p) = Inr None \<Longrightarrow> walk b st 1 p = Inr None"
  by simp

lemma Figure_next_position_after_walk:
  assumes "walk (the_board s) (start_position (heap s f)) (nat moves) (position (heap s f)) = Inr (Some q)"
  shows "Figure_next_position s f moves =
     (if occupied s q \<and> box_at (Board_n (the_board s)) (fst q) (snd q) = HOME then Inr None
      else Inr (Some q))"
proof -
  obtain d r where fa: "Board_figure_at s (fst q) (snd q) = (d, r)"
    by (cases "Board_figure_at s (fst q) (snd q)")
  have "d = None \<longleftrightarrow> \<not> occupied s q"
    using Board_figure_at_occupied [of s "fst q" "snd q"] fa by simp
  then show ?thesis
    using assms fa by (auto simp add: Figure_next_position_def)
qed

section \<open>Capturing\<close>

lemma figure_at_from_remove:
  "figure_at_from h ps i x y = (Some d, r) \<Longrightarrow>
     \<exists>j < length ps. r = Some (i + j) \<and> d \<in> set (figures (ps ! j)) \<and> position (h d) = (x, y)
       \<and> concat (map figures (ps[j := (ps ! j)\<lparr>figures := remove1 d (figures (ps ! j))\<rparr>]))
           = remove1 d (concat (map figures ps))"
proof (induction ps arbitrary: i)
  case Nil
  then show ?case by simp
next
  case (Cons p ps)
  show ?case
  proof (cases "Player_figure_at h p x y")
    case None
    with Cons.prems have "figure_at_from h ps (Suc i) x y = (Some d, r)" by simp
    from Cons.IH [OF this] obtain j where j: "j < length ps" "r = Some (Suc i + j)"
      "d \<in> set (figures (ps ! j))" "position (h d) = (x, y)"
      "concat (map figures (ps[j := (ps ! j)\<lparr>figures := remove1 d (figures (ps ! j))\<rparr>]))
         = remove1 d (concat (map figures ps))"
      by blast
    have "d \<notin> set (figures p)"
      using None j(4) Player_figure_at_None [of h p x y] by (auto simp add: list_ex_iff)
    then have "concat (map figures ((p # ps)[Suc j :=
          ((p # ps) ! Suc j)\<lparr>figures := remove1 d (figures ((p # ps) ! Suc j))\<rparr>]))
        = remove1 d (concat (map figures (p # ps)))"
      using j(5) by (simp add: remove1_append)
    with j(1-4) have "Suc j < length (p # ps) \<and> r = Some (i + Suc j)
        \<and> d \<in> set (figures ((p # ps) ! Suc j)) \<and> position (h d) = (x, y)
        \<and> concat (map figures ((p # ps)[Suc j :=
              ((p # ps) ! Suc j)\<lparr>figures := remove1 d (figures ((p # ps) ! Suc j))\<rparr>]))
            = remove1 d (concat (map figures (p # ps)))"
      by simp
    then show ?thesis by blast
  next
    case (Some d')
    with Cons.prems have e: "d' = d" "r = Some i" by simp_all
    have m: "d \<in> set (figures p)" "position (h d) = (x, y)"
      using Player_figure_at_Some [OF Some] e by simp_all
    then have "0 < length (p # ps) \<and> r = Some (i + 0)
        \<and> d \<in> set (figures ((p # ps) ! 0)) \<and> position (h d) = (x, y)
        \<and> concat (map figures ((p # ps)[0 :=
              ((p # ps) ! 0)\<lparr>figures := remove1 d (figures ((p # ps) ! 0))\<rparr>]))
            = remove1 d (concat (map figures (p # ps)))"
      using e by (simp add: remove1_append)
    then show ?thesis by blast
  qed
qed

lemma Board_move_figure_free:
  assumes "fst (Board_figure_at s x y) = None"
  shows "Board_move_figure s f x y =
     Inr (None, s\<lparr>heap := (heap s)(f := move_to (heap s f) (x, y))\<rparr>)"
proof -
  obtain d r where fa: "Board_figure_at s x y = (d, r)" by (cases "Board_figure_at s x y")
  with assms have "d = None" by simp
  then show ?thesis using fa by (simp add: Board_move_figure_def Let_def)
qed

lemma Board_move_figure_capture:
  assumes "fst (Board_figure_at s x y) = Some d"
  shows "\<exists>i < length (players (the_board s)).
      d \<in> set (figures (players (the_board s) ! i)) \<and> position (heap s d) = (x, y)
      \<and> concat (map figures ((players (the_board s))[i :=
            (players (the_board s) ! i)\<lparr>figures := remove1 d (figures (players (the_board s) ! i))\<rparr>]))
          = remove1 d (all_figures s)
      \<and> Board_move_figure s f x y =
          Inr (Some d,
            s\<lparr>the_board := (the_board s)\<lparr>players := (players (the_board s))[i :=
                   (players (the_board s) ! i)\<lparr>figures := remove1 d (figures (players (the_board s) ! i))\<rparr>]\<rparr>,
              heap := (heap s)(f := move_to (heap s f) (x, y))\<rparr>)"
proof -
  obtain r where fa: "Board_figure_at s x y = (Some d, r)"
    using assms by (cases "Board_figure_at s x y") simp
  then have "figure_at_from (heap s) (players (the_board s)) 0 x y = (Some d, r)"
    by (simp add: Board_figure_at_def)
  from figure_at_from_remove [OF this] obtain j where j: "j < length (players (the_board s))"
    "r = Some j" "d \<in> set (figures (players (the_board s) ! j))" "position (heap s d) = (x, y)"
    "concat (map figures ((players (the_board s))[j :=
        (players (the_board s) ! j)\<lparr>figures := remove1 d (figures (players (the_board s) ! j))\<rparr>]))
      = remove1 d (concat (map figures (players (the_board s))))"
    by auto
  have "Board_move_figure s f x y =
      Inr (Some d,
        s\<lparr>the_board := (the_board s)\<lparr>players := (players (the_board s))[j :=
               (players (the_board s) ! j)\<lparr>figures := remove1 d (figures (players (the_board s) ! j))\<rparr>]\<rparr>,
          heap := (heap s)(f := move_to (heap s f) (x, y))\<rparr>)"
    using fa j(2,3) by (simp add: Board_move_figure_def delete_figure_def Let_def)
  with j show ?thesis unfolding all_figures_def by blast
qed

lemma game_ok_new_game: "new_game n = Inr s \<Longrightarrow> game_ok s"
  by (auto simp add: new_game_def Board_init_def game_ok_def all_figures_def
      split: if_splits)

lemma game_ok_add_player:
  assumes "game_ok s" and "add_player s rep = Inr s'"
  shows "game_ok s'"
proof -
  from assms(2) have a: "all_figures s' = all_figures s @ [fresh s]" and f: "fresh s' = Suc (fresh s)"
    by (auto simp add: add_player_def add_figure_def all_figures_def Let_def split: sum.splits)
  from assms(1) have d: "distinct (all_figures s)" and l: "\<forall>r \<in> set (all_figures s). r < fresh s"
    by (simp_all add: game_ok_def list_all_iff)
  from l have "fresh s \<notin> set (all_figures s)" by auto
  with d l show ?thesis
    unfolding game_ok_def a f by (auto simp add: list_all_iff)
qed

lemma game_ok_move_figure:
  assumes "game_ok s" and "Board_move_figure s f x y = Inr (r, s')"
  shows "game_ok s'"
proof (cases "fst (Board_figure_at s x y)")
  case None
  from assms(2) Board_move_figure_free [OF None, of f]
  have "all_figures s' = all_figures s" "fresh s' = fresh s"
    by (auto simp add: all_figures_def)
  with assms(1) show ?thesis by (simp add: game_ok_def)
next
  case (Some d)
  from Board_move_figure_capture [OF Some, of f] assms(2)
  have "all_figures s' = remove1 d (all_figures s)" "fresh s' = fresh s"
    by (auto simp add: all_figures_def)
  with assms(1) show ?thesis
    by (auto simp add: game_ok_def list_all_iff dest: notin_set_remove1)
qed

section \<open>Facts about the example states\<close>

lemma example_game_reachable:
  "(case new_game 5 of Inl e \<Rightarrow> Inl e | Inr s0 \<Rightarrow>
      (case add_player s0 ''A'' of Inl e \<Rightarrow> Inl e | Inr s1 \<Rightarrow> add_player s1 ''B''))
   = Inr (example_game (3, 0) (1, 4))"
  by (simp add: new_game_def Board_init_def add_player_def add_figure_def py_index_def
      example_game_def Let_def)

lemma build_board_5:
  "build_board 5 =
     [[EMPTY, PATH, PATH, PATH, EMPTY],
      [PATH, PATH, HOME, PATH, PATH],
      [PATH, HOME, WALL, HOME, PATH],
      [PATH, PATH, HOME, PATH, PATH],
      [EMPTY, PATH, PATH, PATH, EMPTY]]"
  by (simp add: build_board_def box_at_def upto.simps)

lemmas eval_step = Board_next_position_def grid_at_def py_index_def posible_moves_def
  home_position_def build_board_5 Let_def

lemma example_walk_2:
  "walk (the_board (example_game (3, 0) (1, 4))) (3, 0) (nat 2) (3, 0) = Inr (Some (4, 1))"
  by (simp add: example_game_def eval_step numeral_2_eq_2)

lemma example_home_stuck:
  "Board_next_position (the_board (example_game (2, 1) (1, 4))) 2 1 = Inr None"
  by (simp add: example_game_def eval_step)

lemma example_home_blocked:
  "Figure_next_position (example_game (2, 1) (1, 4)) 0 1 = Inr None"
proof -
  have "walk (the_board (example_game (2, 1) (1, 4))) (3, 0) (Suc 0) (2, 1) = Inr None"
    using example_home_stuck by simp
  then show ?thesis
    by (simp add: Figure_next_position_def example_game_def)
qed

lemma example_capture_found:
  "Board_figure_at (example_game (4, 2) (4, 1)) 4 2 = (Some 0, Some 0)"
  by (simp add: Board_figure_at_def Player_figure_at_def example_game_def)

lemma example_all_figures: "all_figures (example_game pa pb) = [0, 1]"
  by (simp add: all_figures_def example_game_def)

lemma example_move_A:
  assumes "Figure_next_position (example_game pa pb) 0 k = Inr (Some q)"
    and "q \<noteq> pa" and "q \<noteq> pb"
  shows "attempt_move (example_game pa pb) 0 k = Inr (example_game q pb)"
proof -
  have fa: "Board_figure_at (example_game pa pb) (fst q) (snd q) = (None, None)"
    using assms(2,3)
    by (auto simp add: Board_figure_at_def Player_figure_at_def example_game_def prod_eq_iff)
  have "Board_move_figure (example_game pa pb) 0 (fst q) (snd q) = Inr (None, example_game q pb)"
    using fa
    by (simp add: Board_move_figure_def Let_def example_game_def move_to_def fun_eq_iff)
  then show ?thesis
    using assms(1) by (simp add: attempt_move_def call_Figure_next_position_def)
qed

lemma example_walk_6a:
  "walk (the_board (example_game (3, 0) pb)) (3, 0) (nat 6) (3, 0) = Inr (Some (3, 4))"
  by (simp add: example_game_def eval_step eval_nat_numeral)

lemma example_walk_6b:
  "walk (the_board (example_game (3, 4) pb)) (3, 0) (nat 6) (3, 4) = Inr (Some (0, 1))"
  by (simp add: example_game_def eval_step eval_nat_numeral)

lemma example_walk_4:
  "walk (the_board (example_game (0, 1) pb)) (3, 0) (nat 4) (0, 1) = Inr (Some (2, 1))"
  by (simp add: example_game_def eval_step eval_nat_numeral)

lemma example_next_A:
  assumes "walk (the_board (example_game pa pb)) (3, 0) (nat k) pa = Inr (Some q)"
    and "q \<noteq> pa" and "q \<noteq> pb"
  shows "Figure_next_position (example_game pa pb) 0 k = Inr (Some q)"
proof -
  have "\<not> occupied (example_game pa pb) q"
    using assms(2,3) by (auto simp add: occupied_def all_figures_def example_game_def)
  moreover have "start_position (heap (example_game pa pb) 0) = (3, 0)"
    "position (heap (example_game pa pb) 0) = pa"
    by (simp_all add: example_game_def)
  ultimately show ?thesis
    using Figure_next_position_after_walk [of "example_game pa pb" 0 k q] assms(1) by simp
qed

lemma example_home_reachable:
  "attempt_move (example_game (3, 0) (1, 4)) 0 6 = Inr (example_game (3, 4) (1, 4))"
  "attempt_move (example_game (3, 4) (1, 4)) 0 6 = Inr (example_game (0, 1) (1, 4))"
  "attempt_move (example_game (0, 1) (1, 4)) 0 4 = Inr (example_game (2, 1) (1, 4))"
proof -
  show "attempt_move (example_game (3, 0) (1, 4)) 0 6 = Inr (example_game (3, 4) (1, 4))"
    by (rule example_move_A [OF example_next_A [OF example_walk_6a]]) simp_all
  show "attempt_move (example_game (3, 4) (1, 4)) 0 6 = Inr (example_game (0, 1) (1, 4))"
    by (rule example_move_A [OF example_next_A [OF example_walk_6b]]) simp_all
  show "attempt_move (example_game (0, 1) (1, 4)) 0 4 = Inr (example_game (2, 1) (1, 4))"
    by (rule example_move_A [OF example_next_A [OF example_walk_4]]) simp_all
qed

section \<open>The track is a closed loop\<close>

text \<open>
  Claim C3.  On every board of odd size \<open>N \<ge> 5\<close>, applying \<open>Board.next_position\<close>
  \<open>perimeter_length N = 4 * (N - 1)\<close> times from a player's entry coordinate returns that
  entry coordinate, and every result on the way is a PATH coordinate.
\<close>

theorem C3_track_is_closed_loop:
  assumes "board_ok b" and "p \<in> set (starts b)"
  shows "iter_next b (perimeter_length (Board_n b)) p = Inr (Some p)
       \<and> (\<forall>k \<le> perimeter_length (Board_n b).
            \<exists>q. iter_next b k p = Inr (Some q) \<and> box_at (Board_n b) (fst q) (snd q) = PATH)"
proof -
  define m where "m = Board_n b div 2"
  have m: "2 \<le> m" and n: "Board_n b = 2 * m + 1"
    using board_ok_half(1,2) [OF assms(1)] m_def by simp_all
  have len: "int (perimeter_length (Board_n b)) = 8 * m"
    using perimeter_length_half [OF m] n by simp
  obtain k0 where p: "p = track m k0" and k0: "0 \<le> k0" "k0 < 8 * m"
    using starts_on_track [OF assms(1) m_def assms(2)] m by fastforce
  have it: "iter_next b j p = Inr (Some (track m ((k0 + int j) mod (8 * m))))" for j
    using iter_next_track [OF assms(1) m_def k0] p by simp
  have "iter_next b (perimeter_length (Board_n b)) p = Inr (Some p)"
    using it [of "perimeter_length (Board_n b)"] len k0 p by simp
  moreover have "\<exists>q. iter_next b j p = Inr (Some q) \<and> box_at (Board_n b) (fst q) (snd q) = PATH" for j
  proof -
    have "0 \<le> (k0 + int j) mod (8 * m)" "(k0 + int j) mod (8 * m) < 8 * m"
      using m by simp_all
    from track_path [OF m this] show ?thesis using it [of j] n by simp
  qed
  ultimately show ?thesis by blast
qed

theorem C3_track_is_closed_loop_witness:
  "iter_next \<lparr>Board_n = 5, Board_board = build_board 5, players = [], starts = [(3, 0), (1, 4)]\<rparr>
     (perimeter_length 5) (1, 4) = Inr (Some (1, 4))
   \<and> perimeter_length 5 = 16"
proof -
  let ?b = "\<lparr>Board_n = 5, Board_board = build_board 5, players = [], starts = [(3, 0), (1, 4)]\<rparr>"
  have ok: "board_ok ?b" by (simp add: board_ok_def)
  have mem: "(1, 4) \<in> set (starts ?b)" by simp
  show ?thesis
    using C3_track_is_closed_loop [OF ok mem] by (simp add: perimeter_length_def)
qed

section \<open>Cell classification\<close>

text \<open>
  Claim C1.  On every board of odd size \<open>N \<ge> 5\<close> and for every coordinate \<open>(x, y)\<close> with
  \<open>0 \<le> x, y \<le> N - 1\<close>, \<open>Board.box_at\<close> gives the cell kind that the rule of the
  specification gives: with \<open>m = N div 2\<close>, on the axis WALL at the centre, PATH on the
  edge and HOME otherwise; off the axis EMPTY when both \<open>x\<close> and \<open>y\<close> are strictly outside
  \<open>[m - 1, m + 1]\<close> and PATH otherwise.
\<close>

theorem C1_box_at_matches_spec_rule:
  assumes "Board_init N = Inr b" and "5 \<le> N" and "in_range N x y"
  shows "box_at (Board_n b) x y = classify_spec N x y"
proof -
  from assms(1) have "Board_n b = N"
    by (auto simp add: Board_init_def split: if_splits)
  then show ?thesis by (simp add: box_at_classify)
qed

theorem C1_box_at_matches_spec_rule_witness:
  "box_at 5 2 1 = classify_spec 5 2 1 \<and> classify_spec 5 2 1 = HOME
   \<and> box_at 5 0 0 = classify_spec 5 0 0 \<and> classify_spec 5 0 0 = EMPTY"
proof -
  have i: "Board_init 5 = Inr \<lparr>Board_n = 5, Board_board = build_board 5, players = [],
      starts = [(3, 0), (1, 4)]\<rparr>"
    by (simp add: Board_init_def)
  have n: "(5::int) \<le> 5" by simp
  have r1: "in_range 5 2 1" and r2: "in_range 5 0 0" by (simp_all add: in_range_def)
  show ?thesis
    using C1_box_at_matches_spec_rule [OF i n r1] C1_box_at_matches_spec_rule [OF i n r2]
    by (simp add: classify_spec_def outside_band_def touches_edge_def)
qed

text \<open>
  Claim C10.  On every board of odd size \<open>N\<close> and for every coordinate \<open>(x, y)\<close> with
  \<open>0 \<le> x, y \<le> N - 1\<close>, the classification is symmetric under transposition,
  \<open>box_at(x, y) = box_at(y, x)\<close>; hence the transposed lookup \<open>self.board[x][y]\<close> of
  \<open>Board.next_position\<close> and the row-major lookup \<open>self.board[y][x]\<close> both give
  \<open>box_at(x, y)\<close> on the grid that \<open>_build_board\<close> made.
\<close>

theorem C10_box_at_transpose_symmetric:
  assumes "Board_init N = Inr b" and "in_range N x y"
  shows "box_at (Board_n b) x y = box_at (Board_n b) y x
       \<and> grid_at b x y = Inr (box_at (Board_n b) x y)
       \<and> grid_at b y x = Inr (box_at (Board_n b) x y)"
proof -
  from assms(1) have n: "Board_n b = N" and g: "Board_board b = build_board N"
    by (auto simp add: Board_init_def split: if_splits)
  from assms(2) have r: "in_range N y x" by (simp add: in_range_def)
  have "grid_at b x y = Inr (box_at N y x)"
    using grid_at_build [OF g assms(2)] .
  moreover have "grid_at b y x = Inr (box_at N x y)"
    using grid_at_build [OF g r] .
  ultimately show ?thesis
    using n box_at_sym [of N x y] by simp
qed

theorem C10_box_at_transpose_symmetric_witness:
  "box_at 7 3 1 = box_at 7 1 3
   \<and> grid_at \<lparr>Board_n = 7, Board_board = build_board 7, players = [],
        starts = [(4, 0), (2, 6)]\<rparr> 3 1 = Inr HOME"
proof -
  have i: "Board_init 7 = Inr \<lparr>Board_n = 7, Board_board = build_board 7, players = [],
      starts = [(4, 0), (2, 6)]\<rparr>"
    by (simp add: Board_init_def)
  have r: "in_range 7 3 1" by (simp add: in_range_def)
  show ?thesis
    using C10_box_at_transpose_symmetric [OF i r]
    by (simp add: box_at_def)
qed

section \<open>Construction of a board\<close>

text \<open>
  Claim C8 says that \<open>Board(n)\<close> fails for every \<open>n\<close> that is not odd and at least 5.  The
  constructor asserts oddness only, so the sizes 3 and 1 are accepted.
\<close>

theorem C8_small_odd_sizes_counterexample:
  "Board_init 3 = Inr \<lparr>Board_n = 3,
      Board_board = [[PATH, PATH, PATH], [PATH, WALL, PATH], [PATH, PATH, PATH]],
      players = [], starts = [(2, 0), (0, 2)]\<rparr>
   \<and> Board_init 1 = Inr \<lparr>Board_n = 1, Board_board = [[WALL]],
      players = [], starts = [(1, 0), (- 1, 0)]\<rparr>"
  by (simp add: Board_init_def build_board_def box_at_def upto.simps)

text \<open>
  Claim C8, amended.  \<open>Board(n)\<close> succeeds for every odd \<open>n\<close>, in particular for every odd
  \<open>n \<ge> 5\<close> but also for 1 and 3, and fails with an assertion error for every even \<open>n\<close>.
\<close>

theorem C8_construction_succeeds_iff_odd:
  "(n mod 2 = 1 \<longrightarrow> (\<exists>b. Board_init n = Inr b \<and> Board_n b = n))
   \<and> (n mod 2 = 0 \<longrightarrow> Board_init n = Inl AssertionError)
   \<and> (n mod 2 = 1 \<or> n mod 2 = 0)"
  by (auto simp add: Board_init_def)

theorem C8_construction_succeeds_iff_odd_witness:
  "(\<exists>b. Board_init 7 = Inr b \<and> Board_n b = 7) \<and> Board_init 4 = Inl AssertionError
   \<and> (\<exists>b. Board_init 3 = Inr b \<and> Board_n b = 3)"
  using C8_construction_succeeds_iff_odd [of 7] C8_construction_succeeds_iff_odd [of 4]
    C8_construction_succeeds_iff_odd [of 3]
  by simp

section \<open>Finishing\<close>

text \<open>
  Claim C7.  \<open>Player.has_finished\<close> is true if and only if the player owns exactly
  \<open>max_figures = (N - 3) div 2\<close> figures and the coordinate of every owned figure is a
  HOME cell; in particular it is false for a player who owns fewer than \<open>max_figures\<close>
  figures, even when all of them are at HOME.
\<close>

theorem C7_has_finished_iff:
  "(has_finished h b p \<longleftrightarrow>
      int (length (figures p)) = (Board_n b - 3) div 2
      \<and> (\<forall>r \<in> set (figures p).
            box_at (Board_n b) (fst (position (h r))) (snd (position (h r))) = HOME))
   \<and> (int (length (figures p)) < (Board_n b - 3) div 2 \<longrightarrow> \<not> has_finished h b p)"
  by (auto simp add: has_finished_def figures_finished_def max_figures_def is_home_def
      list_all_iff)

theorem C7_has_finished_iff_witness:
  "has_finished
     (\<lambda>_. \<lparr>start_position = (3, 0), position = (2, 1), representation = ''A''\<rparr>)
     \<lparr>Board_n = 5, Board_board = build_board 5, players = [], starts = [(3, 0), (1, 4)]\<rparr>
     \<lparr>Player_representation = ''A'', Player_home_position = (3, 0), figures = [0]\<rparr>
   \<and> \<not> has_finished
     (\<lambda>_. \<lparr>start_position = (4, 0), position = (3, 1), representation = ''A''\<rparr>)
     \<lparr>Board_n = 7, Board_board = build_board 7, players = [], starts = [(4, 0), (2, 6)]\<rparr>
     \<lparr>Player_representation = ''A'', Player_home_position = (4, 0), figures = [0]\<rparr>"
  using C7_has_finished_iff
      [of "\<lambda>_. \<lparr>start_position = (3, 0), position = (2, 1), representation = ''A''\<rparr>"
          "\<lparr>Board_n = 5, Board_board = build_board 5, players = [], starts = [(3, 0), (1, 4)]\<rparr>"
          "\<lparr>Player_representation = ''A'', Player_home_position = (3, 0), figures = [0]\<rparr>"]
    C7_has_finished_iff
      [of "\<lambda>_. \<lparr>start_position = (4, 0), position = (3, 1), representation = ''A''\<rparr>"
          "\<lparr>Board_n = 7, Board_board = build_board 7, players = [], starts = [(4, 0), (2, 6)]\<rparr>"
          "\<lparr>Player_representation = ''A'', Player_home_position = (4, 0), figures = [0]\<rparr>"]
  by (simp add: box_at_def)

section \<open>Advancing from a HOME cell\<close>

text \<open>
  Claim C2 says that \<open>Board.next_position\<close> returns \<open>None\<close> on every HOME cell.  Lines
  124-130 of the source move a figure along its home lane before the HOME test of line
  133 is reached: on the board of size 7 the HOME cell \<open>(3, 1)\<close> advances to \<open>(3, 2)\<close>.
\<close>

theorem C2_home_cell_may_advance_counterexample:
  "box_at 7 3 1 = HOME
   \<and> Board_next_position
        \<lparr>Board_n = 7, Board_board = build_board 7, players = [], starts = [(4, 0), (2, 6)]\<rparr>
        3 1 = Inr (Some (3, 2))"
  by (simp add: box_at_def Board_next_position_def)

text \<open>
  Claim C2, amended.  On every board of odd size \<open>N \<ge> 5\<close>, with \<open>m = N div 2\<close>,
  \<open>Board.next_position\<close> returns \<open>None\<close> on every HOME cell next to the centre; on a HOME
  cell of the upper, lower or left home lane that is not next to the centre it returns
  the neighbouring cell one step closer to the centre, which is again a HOME cell.
\<close>

theorem C2_next_position_on_home_cells:
  assumes "board_ok b" and "m = Board_n b div 2" and "in_range (Board_n b) x y"
    and "box_at (Board_n b) x y = HOME"
  shows "(\<bar>x - m\<bar> + \<bar>y - m\<bar> = 1 \<longrightarrow> Board_next_position b x y = Inr None)
       \<and> (x = m \<and> y < m - 1 \<longrightarrow> Board_next_position b x y = Inr (Some (x, y + 1))
             \<and> box_at (Board_n b) x (y + 1) = HOME)
       \<and> (x = m \<and> y > m + 1 \<longrightarrow> Board_next_position b x y = Inr (Some (x, y - 1))
             \<and> box_at (Board_n b) x (y - 1) = HOME)
       \<and> (y = m \<and> x < m - 1 \<longrightarrow> Board_next_position b x y = Inr (Some (x + 1, y))
             \<and> box_at (Board_n b) (x + 1) y = HOME)"
proof -
  have n: "Board_n b = 2 * m + 1" and m: "2 \<le> m"
    using board_ok_half(1,2) [OF assms(1)] assms(2) by simp_all
  have p: "Board_next_position b x y = Inr (next_pure (2 * m + 1) x y)"
    using Board_next_position_pure [OF board_ok_half(3) [OF assms(1)] assms(3)] n by simp
  have h: "box_at (2 * m + 1) x y = HOME" using assms(4) n by simp
  have r: "0 \<le> x" "x \<le> 2 * m" "0 \<le> y" "y \<le> 2 * m"
    using assms(3) n by (simp_all add: in_range_def)
  have c1: "\<bar>x - m\<bar> + \<bar>y - m\<bar> = 1 \<longrightarrow> next_pure (2 * m + 1) x y = None"
    using h m by (auto simp add: next_pure_def Let_def)
  have c2: "x = m \<and> y < m - 1 \<longrightarrow> next_pure (2 * m + 1) x y = Some (x, y + 1)
       \<and> box_at (2 * m + 1) x (y + 1) = HOME"
    using h m r by (auto simp add: next_pure_def box_at_def Let_def split: if_splits)
  have c3: "x = m \<and> y > m + 1 \<longrightarrow> next_pure (2 * m + 1) x y = Some (x, y - 1)
       \<and> box_at (2 * m + 1) x (y - 1) = HOME"
    using h m r by (auto simp add: next_pure_def box_at_def Let_def split: if_splits)
  have c4: "y = m \<and> x < m - 1 \<longrightarrow> next_pure (2 * m + 1) x y = Some (x + 1, y)
       \<and> box_at (2 * m + 1) (x + 1) y = HOME"
    using h m r by (auto simp add: next_pure_def box_at_def Let_def split: if_splits)
  show ?thesis
    unfolding p n using c1 c2 c3 c4 by simp
qed

theorem C2_next_position_on_home_cells_witness:
  "Board_next_position
     \<lparr>Board_n = 7, Board_board = build_board 7, players = [], starts = [(4, 0), (2, 6)]\<rparr>
     3 2 = Inr None
   \<and> Board_next_position
     \<lparr>Board_n = 7, Board_board = build_board 7, players = [], starts = [(4, 0), (2, 6)]\<rparr>
     1 3 = Inr (Some (2, 3))
   \<and> box_at 7 2 3 = HOME"
proof -
  let ?b = "\<lparr>Board_n = 7, Board_board = build_board 7, players = [], starts = [(4, 0), (2, 6)]\<rparr>"
  have ok: "board_ok ?b" by (simp add: board_ok_def)
  have m: "(3::int) = Board_n ?b div 2" by simp
  have r1: "in_range (Board_n ?b) 3 2" and r2: "in_range (Board_n ?b) 1 3"
    by (simp_all add: in_range_def)
  have h1: "box_at (Board_n ?b) 3 2 = HOME" and h2: "box_at (Board_n ?b) 1 3 = HOME"
    by (simp_all add: box_at_def)
  show ?thesis
    using C2_next_position_on_home_cells [OF ok m r1 h1]
      C2_next_position_on_home_cells [OF ok m r2 h2]
    by simp
qed

section \<open>The result of \<open>Figure.next_position\<close>\<close>

text \<open>
  Claim C4 says that, apart from an advance that yields \<open>None\<close> and a HOME destination
  occupied by another figure, \<open>Figure.next_position\<close> returns the coordinate reached.
  The occupancy test of lines 33-34 does not exclude the moving figure: for a figure on
  the HOME cell \<open>(2, 1)\<close> and a step count of 0 no advance is made, no other figure is on
  \<open>(2, 1)\<close>, and the result is \<open>None\<close>.
\<close>

theorem C4_zero_steps_on_home_counterexample:
  "position (heap (example_game (2, 1) (1, 4)) 0) = (2, 1)
   \<and> walk (the_board (example_game (2, 1) (1, 4))) (3, 0) (nat 0) (2, 1) = Inr (Some (2, 1))
   \<and> box_at 5 2 1 = HOME
   \<and> \<not> occupied_by_other (example_game (2, 1) (1, 4)) 0 (2, 1)
   \<and> Figure_next_position (example_game (2, 1) (1, 4)) 0 0 = Inr None"
  by (simp add: example_game_def Figure_next_position_def Board_figure_at_def
      Player_figure_at_def box_at_def occupied_by_other_def all_figures_def)

text \<open>
  Claim C4, amended.  For every figure, board and step count, \<open>Figure.next_position\<close>
  returns \<open>None\<close> if a single-step advance on the way yields \<open>None\<close>; every coordinate it
  returns is the one reached after the given number of steps and is not a HOME cell on
  which a figure stands; and when the steps reach a coordinate, the result is \<open>None\<close> if
  that coordinate is a HOME cell on which any figure stands, the moving figure included,
  and the coordinate otherwise.
\<close>

theorem C4_Figure_next_position_result:
  assumes "b = the_board s" and "st = start_position (heap s f)" and "pos = position (heap s f)"
  shows "(\<forall>i p. i < nat moves \<and> walk b st i pos = Inr (Some p)
              \<and> Board_next_position b (fst p) (snd p) = Inr None
            \<longrightarrow> Figure_next_position s f moves = Inr None)
       \<and> (\<forall>q. Figure_next_position s f moves = Inr (Some q)
            \<longrightarrow> walk b st (nat moves) pos = Inr (Some q)
                \<and> \<not> (occupied s q \<and> box_at (Board_n b) (fst q) (snd q) = HOME))
       \<and> (\<forall>q. walk b st (nat moves) pos = Inr (Some q)
            \<longrightarrow> Figure_next_position s f moves =
                  (if occupied s q \<and> box_at (Board_n b) (fst q) (snd q) = HOME then Inr None
                   else Inr (Some q)))"
proof (intro conjI allI impI)
  fix i p
  assume a: "i < nat moves \<and> walk b st i pos = Inr (Some p)
      \<and> Board_next_position b (fst p) (snd p) = Inr None"
  then have "walk b st (nat moves) pos = Inr None"
    using walk_None_later [of b st i pos p "nat moves"] walk_one_None [of b p st] by blast
  then show "Figure_next_position s f moves = Inr None"
    using assms by (simp add: Figure_next_position_def)
next
  fix q
  assume w: "walk b st (nat moves) pos = Inr (Some q)"
  then show "Figure_next_position s f moves =
      (if occupied s q \<and> box_at (Board_n b) (fst q) (snd q) = HOME then Inr None
       else Inr (Some q))"
    using Figure_next_position_after_walk [of s f moves q] assms by simp
next
  fix q
  assume r: "Figure_next_position s f moves = Inr (Some q)"
  show "walk b st (nat moves) pos = Inr (Some q)"
  proof (cases "walk b st (nat moves) pos")
    case (Inl e)
    then show ?thesis using r assms by (simp add: Figure_next_position_def)
  next
    case (Inr o1)
    show ?thesis
    proof (cases o1)
      case None
      then show ?thesis using r assms Inr by (simp add: Figure_next_position_def)
    next
      case (Some q')
      then have "Figure_next_position s f moves =
          (if occupied s q' \<and> box_at (Board_n b) (fst q') (snd q') = HOME then Inr None
           else Inr (Some q'))"
        using Figure_next_position_after_walk [of s f moves q'] assms Inr by simp
      then have "q' = q" using r by (simp split: if_splits)
      then show ?thesis using Inr Some by simp
    qed
  qed
  then have "Figure_next_position s f moves =
      (if occupied s q \<and> box_at (Board_n b) (fst q) (snd q) = HOME then Inr None
       else Inr (Some q))"
    using Figure_next_position_after_walk [of s f moves q] assms by simp
  then show "\<not> (occupied s q \<and> box_at (Board_n b) (fst q) (snd q) = HOME)"
    using r by (simp split: if_splits)
qed

theorem C4_Figure_next_position_result_witness:
  "Figure_next_position (example_game (3, 0) (1, 4)) 0 2 = Inr (Some (4, 1))
   \<and> Figure_next_position (example_game (2, 1) (1, 4)) 0 1 = Inr None"
proof -
  let ?s = "example_game (3, 0) (1, 4)" and ?t = "example_game (2, 1) (1, 4)"
  let ?q = "(4, 1) :: coord" and ?h = "(2, 1) :: coord"
  have st: "start_position (heap ?s 0) = (3, 0)" "position (heap ?s 0) = (3, 0)"
    "start_position (heap ?t 0) = (3, 0)" "position (heap ?t 0) = (2, 1)"
    by (simp_all add: example_game_def)
  have free: "\<not> occupied ?s (4, 1)"
    by (simp add: example_game_def occupied_def all_figures_def)
  have w0: "walk (the_board ?t) (3, 0) 0 (2, 1) = Inr (Some (2, 1))" by simp
  have "walk (the_board ?s) (start_position (heap ?s 0)) (nat 2) (position (heap ?s 0))
          = Inr (Some ?q)
        \<longrightarrow> Figure_next_position ?s 0 2 =
          (if occupied ?s ?q \<and> box_at (Board_n (the_board ?s)) (fst ?q) (snd ?q) = HOME
           then Inr None else Inr (Some ?q))"
    using C4_Figure_next_position_result
      [where s = "example_game (3, 0) (1, 4)" and f = 0 and moves = 2, OF refl refl refl]
    by blast
  then have a: "Figure_next_position ?s 0 2 = Inr (Some (4, 1))"
    using example_walk_2 free by (simp add: st)
  have "0 < nat 1 \<and> walk (the_board ?t) (start_position (heap ?t 0)) 0 (position (heap ?t 0))
            = Inr (Some ?h)
          \<and> Board_next_position (the_board ?t) (fst ?h) (snd ?h) = Inr None
        \<longrightarrow> Figure_next_position ?t 0 1 = Inr None"
    using C4_Figure_next_position_result
      [where s = "example_game (2, 1) (1, 4)" and f = 0 and moves = 1, OF refl refl refl]
    by blast
  then have "Figure_next_position ?t 0 1 = Inr None"
    using example_home_stuck w0 by (simp add: st)
  with a show ?thesis by simp
qed

section \<open>Redirection into the home lane\<close>

text \<open>
  Claim C5.  For a figure whose \<open>start_position\<close> is an entry coordinate of the board, a
  step of \<open>Figure.next_position\<close> that lands on that \<open>start_position\<close> continues from
  \<open>board.home_position\<close> of it, the first cell of the home lane of that entry point,
  where plain repetition of \<open>Board.next_position\<close> would stay on the track; in
  particular, advancing one full circuit of \<open>4 * (N - 1)\<close> steps from the entry coordinate
  ends on that HOME cell, which is the destination returned unless a figure stands on it.
\<close>

theorem C5_own_start_redirects_into_home_lane:
  assumes "board_ok (the_board s)"
    and "start_position (heap s f) \<in> set (starts (the_board s))"
    and "b = the_board s" and "st = start_position (heap s f)"
  shows "\<exists>h. home_position b (fst st) (snd st) = Some h
     \<and> box_at (Board_n b) (fst h) (snd h) = HOME
     \<and> (\<forall>pos k. Board_next_position b (fst pos) (snd pos) = Inr (Some st)
           \<longrightarrow> walk b st (Suc k) pos = walk b st k h)
     \<and> walk b st (perimeter_length (Board_n b)) st = Inr (Some h)
     \<and> iter_next b (perimeter_length (Board_n b)) st = Inr (Some st)
     \<and> (position (heap s f) = st \<longrightarrow>
          Figure_next_position s f (int (perimeter_length (Board_n b))) =
            (if occupied s h then Inr None else Inr (Some h)))"
proof -
  define m where "m = Board_n b div 2"
  have ok: "board_ok b" and mem: "st \<in> set (starts b)"
    using assms by simp_all
  have m2: "2 \<le> m" and n: "Board_n b = 2 * m + 1"
    using board_ok_half(1,2) [OF ok] m_def by simp_all
  have len: "perimeter_length (Board_n b) = nat (8 * m)"
    unfolding n by (simp add: perimeter_length_def)
  obtain j0 where j0: "j0 = 0 \<or> j0 = 4 * m" and st: "st = track m j0"
    using starts_on_track [OF ok m_def mem] by blast
  have j0r: "0 \<le> j0" "j0 < 8 * m" using j0 m2 by auto
  have step: "Board_next_position b (fst (track m k)) (snd (track m k)) =
      Inr (Some (track m ((k + 1) mod (8 * m))))" if "0 \<le> k" "k < 8 * m" for k
    using Board_next_position_track [OF ok m_def that] .
  have inj: "(track m k = st) = (k = j0)" if "0 \<le> k" "k < 8 * m" for k
    unfolding st using track_eq_start [OF m2 j0 that] .
  have "\<exists>h. home_position b (fst st) (snd st) = Some h
      \<and> box_at (Board_n b) (fst h) (snd h) = HOME"
  proof (cases "j0 = 0")
    case True
    then have "st = (m + 1, 0)" using st track_starts(1) [OF m2] by simp
    then show ?thesis
      using home_position_first_start [OF m2 n] by simp
  next
    case False
    with j0 have "j0 = 4 * m" by simp
    then have "st = (m - 1, 2 * m)" using st track_starts(2) [OF m2] by simp
    moreover have "Board_n b - 1 = 2 * m" unfolding n by simp
    ultimately have "fst st = m - 1" "snd st = Board_n b - 1" by simp_all
    then show ?thesis
      using home_position_second_start [OF m2 n] by simp
  qed
  then obtain h where home: "home_position b (fst st) (snd st) = Some h"
    and hh: "box_at (Board_n b) (fst h) (snd h) = HOME" by blast
  have w: "walk b st (perimeter_length (Board_n b)) st = Inr (Some h)"
    unfolding len using full_circuit_aux [OF step inj m2 j0r st home] by blast
  have red: "\<forall>pos k. Board_next_position b (fst pos) (snd pos) = Inr (Some st)
      \<longrightarrow> walk b st (Suc k) pos = walk b st k h"
    using home by simp
  have "iter_next b (nat (8 * m)) (track m j0) =
      Inr (Some (track m ((j0 + int (nat (8 * m))) mod (8 * m))))"
    using iter_next_track [OF ok m_def j0r] .
  moreover have "(j0 + int (nat (8 * m))) mod (8 * m) = j0"
    using j0r m2 by simp
  ultimately have it: "iter_next b (perimeter_length (Board_n b)) st = Inr (Some st)"
    unfolding len st by simp
  have fin: "position (heap s f) = st \<longrightarrow>
      Figure_next_position s f (int (perimeter_length (Board_n b))) =
        (if occupied s h then Inr None else Inr (Some h))"
  proof
    assume p: "position (heap s f) = st"
    have "walk (the_board s) (start_position (heap s f))
        (nat (int (perimeter_length (Board_n b)))) (position (heap s f)) = Inr (Some h)"
      using w p assms(3,4) by simp
    from Figure_next_position_after_walk [OF this]
    show "Figure_next_position s f (int (perimeter_length (Board_n b))) =
        (if occupied s h then Inr None else Inr (Some h))"
      using hh assms(3) by simp
  qed
  from home hh red w it fin show ?thesis by blast
qed

theorem C5_own_start_redirects_into_home_lane_witness:
  "Figure_next_position (example_game (3, 0) (1, 4)) 0 16 = Inr (Some (2, 1))
   \<and> box_at 5 2 1 = HOME
   \<and> iter_next (the_board (example_game (3, 0) (1, 4))) 16 (3, 0) = Inr (Some (3, 0))"
proof -
  let ?s = "example_game (3, 0) (1, 4)"
  have ok: "board_ok (the_board ?s)" by (simp add: board_ok_def example_game_def)
  have mem: "start_position (heap ?s 0) \<in> set (starts (the_board ?s))"
    by (simp add: example_game_def)
  have st: "start_position (heap ?s 0) = (3, 0)" "position (heap ?s 0) = (3, 0)"
    and n: "Board_n (the_board ?s) = 5"
    by (simp_all add: example_game_def)
  have p: "perimeter_length 5 = 16" by (simp add: perimeter_length_def)
  from C5_own_start_redirects_into_home_lane [OF ok mem refl refl]
  obtain h where h: "home_position (the_board ?s) (fst (start_position (heap ?s 0)))
        (snd (start_position (heap ?s 0))) = Some h"
    and i: "iter_next (the_board ?s) (perimeter_length (Board_n (the_board ?s)))
        (start_position (heap ?s 0)) = Inr (Some (start_position (heap ?s 0)))"
    and r: "position (heap ?s 0) = start_position (heap ?s 0) \<longrightarrow>
        Figure_next_position ?s 0 (int (perimeter_length (Board_n (the_board ?s)))) =
          (if occupied ?s h then Inr None else Inr (Some h))"
    by blast
  have "home_position (the_board ?s) 3 0 = Some (2, 1)"
    by (simp add: home_position_def example_game_def)
  with h have e: "h = (2, 1)" by (simp add: st)
  have free: "\<not> occupied ?s (2, 1)"
    by (simp add: occupied_def all_figures_def example_game_def)
  have "Figure_next_position ?s 0 16 = Inr (Some (2, 1))"
    using r free by (simp add: st n p e)
  moreover have "iter_next (the_board ?s) 16 (3, 0) = Inr (Some (3, 0))"
    using i by (simp add: st n p)
  moreover have "box_at 5 2 1 = HOME" by (simp add: box_at_def)
  ultimately show ?thesis by simp
qed

section \<open>Capturing on arrival\<close>

text \<open>
  Claim C6.  In every state, \<open>Board.move_figure(figure, x, y)\<close> returns the figure that
  \<open>figure_at\<close> finds on \<open>(x, y)\<close>, \<open>None\<close> exactly when no figure stands there, and in all
  cases sets the position of the moving figure to \<open>(x, y)\<close>.  A figure that is returned
  stood on \<open>(x, y)\<close> and is removed from the list of the player that owned it, the other
  lists staying as they were; as no figure is listed twice, it is in no player's list
  afterwards.
\<close>

theorem C6_move_figure_captures:
  "\<exists>s'. Board_move_figure s f x y = Inr (fst (Board_figure_at s x y), s')
     \<and> position (heap s' f) = (x, y)
     \<and> (fst (Board_figure_at s x y) = None \<longleftrightarrow> \<not> occupied s (x, y))
     \<and> (fst (Board_figure_at s x y) = None \<longrightarrow> the_board s' = the_board s)
     \<and> (\<forall>d. fst (Board_figure_at s x y) = Some d \<longrightarrow>
           position (heap s d) = (x, y)
           \<and> (\<exists>i < length (players (the_board s)).
                 d \<in> set (figures (players (the_board s) ! i))
                 \<and> players (the_board s') = (players (the_board s))[i :=
                       (players (the_board s) ! i)
                         \<lparr>figures := remove1 d (figures (players (the_board s) ! i))\<rparr>])
           \<and> all_figures s' = remove1 d (all_figures s)
           \<and> (distinct (all_figures s) \<longrightarrow> d \<notin> set (all_figures s')))"
proof (cases "fst (Board_figure_at s x y)")
  case None
  let ?s' = "s\<lparr>heap := (heap s)(f := move_to (heap s f) (x, y))\<rparr>"
  have "Board_move_figure s f x y = Inr (fst (Board_figure_at s x y), ?s')"
    using Board_move_figure_free [OF None] None by simp
  moreover have "position (heap ?s' f) = (x, y)" by (simp add: move_to_def)
  moreover have "fst (Board_figure_at s x y) = None \<longleftrightarrow> \<not> occupied s (x, y)"
    by (rule Board_figure_at_occupied)
  moreover have "the_board ?s' = the_board s" by simp
  ultimately show ?thesis using None by auto
next
  case (Some d)
  from Board_move_figure_capture [OF Some, of f] obtain i
    where i: "i < length (players (the_board s))"
      "d \<in> set (figures (players (the_board s) ! i))" "position (heap s d) = (x, y)"
      "concat (map figures ((players (the_board s))[i :=
            (players (the_board s) ! i)\<lparr>figures := remove1 d (figures (players (the_board s) ! i))\<rparr>]))
          = remove1 d (all_figures s)"
      "Board_move_figure s f x y =
          Inr (Some d,
            s\<lparr>the_board := (the_board s)\<lparr>players := (players (the_board s))[i :=
                   (players (the_board s) ! i)\<lparr>figures := remove1 d (figures (players (the_board s) ! i))\<rparr>]\<rparr>,
              heap := (heap s)(f := move_to (heap s f) (x, y))\<rparr>)"
    by blast
  let ?s' = "s\<lparr>the_board := (the_board s)\<lparr>players := (players (the_board s))[i :=
                   (players (the_board s) ! i)\<lparr>figures := remove1 d (figures (players (the_board s) ! i))\<rparr>]\<rparr>,
              heap := (heap s)(f := move_to (heap s f) (x, y))\<rparr>"
  have a: "Board_move_figure s f x y = Inr (fst (Board_figure_at s x y), ?s')"
    using i(5) Some by simp
  have b: "position (heap ?s' f) = (x, y)" by (simp add: move_to_def)
  have c: "fst (Board_figure_at s x y) = None \<longleftrightarrow> \<not> occupied s (x, y)"
    by (rule Board_figure_at_occupied)
  have e: "all_figures ?s' = remove1 d (all_figures s)"
    using i(4) by (simp add: all_figures_def)
  have g: "distinct (all_figures s) \<longrightarrow> d \<notin> set (all_figures ?s')"
    unfolding e by simp
  have p: "players (the_board ?s') = (players (the_board s))[i :=
      (players (the_board s) ! i)\<lparr>figures := remove1 d (figures (players (the_board s) ! i))\<rparr>]"
    by simp
  show ?thesis
    using a b c e g p i(1,2,3) Some by (intro exI [of _ ?s']) auto
qed

theorem C6_move_figure_captures_witness:
  "\<exists>s'. Board_move_figure (example_game (4, 2) (4, 1)) 1 4 2 = Inr (Some 0, s')
      \<and> position (heap s' 1) = (4, 2) \<and> all_figures s' = [1]"
proof -
  let ?s = "example_game (4, 2) (4, 1)"
  from C6_move_figure_captures [of ?s 1 4 2] obtain s'
    where m: "Board_move_figure ?s 1 4 2 = Inr (fst (Board_figure_at ?s 4 2), s')"
      and p: "position (heap s' 1) = (4, 2)"
      and c: "\<forall>d. fst (Board_figure_at ?s 4 2) = Some d \<longrightarrow>
           position (heap ?s d) = (4, 2)
           \<and> (\<exists>i < length (players (the_board ?s)).
                 d \<in> set (figures (players (the_board ?s) ! i))
                 \<and> players (the_board s') = (players (the_board ?s))[i :=
                       (players (the_board ?s) ! i)
                         \<lparr>figures := remove1 d (figures (players (the_board ?s) ! i))\<rparr>])
           \<and> all_figures s' = remove1 d (all_figures ?s)
           \<and> (distinct (all_figures ?s) \<longrightarrow> d \<notin> set (all_figures s'))"
    by blast
  have f: "fst (Board_figure_at ?s 4 2) = Some 0"
    by (simp add: example_capture_found)
  with c have "all_figures s' = remove1 0 (all_figures ?s)" by blast
  then have "all_figures s' = [1]" by (simp add: example_all_figures)
  with m p f show ?thesis by auto
qed

section \<open>Computing a destination changes nothing\<close>

text \<open>
  Claim C9.  A call of \<open>Figure.next_position\<close> hands back the state it received, whether
  its result is a coordinate or \<open>None\<close>: the positions of the figures, the lists of the
  players and the grid are as before.  A turn whose destination is \<open>None\<close> therefore ends
  in the state in which it began.
\<close>

theorem C9_next_position_leaves_state_unchanged:
  "snd (call_Figure_next_position s f moves) = s
   \<and> fst (call_Figure_next_position s f moves) = Figure_next_position s f moves
   \<and> (Figure_next_position s f moves = Inr None \<longrightarrow> attempt_move s f moves = Inr s)"
  by (simp add: call_Figure_next_position_def attempt_move_def)

theorem C9_next_position_leaves_state_unchanged_witness:
  "attempt_move (example_game (2, 1) (1, 4)) 0 1 = Inr (example_game (2, 1) (1, 4))
   \<and> snd (call_Figure_next_position (example_game (3, 0) (1, 4)) 0 2) = example_game (3, 0) (1, 4)"
  using C9_next_position_leaves_state_unchanged [of "example_game (2, 1) (1, 4)" 0 1]
    C9_next_position_leaves_state_unchanged [of "example_game (3, 0) (1, 4)" 0 2]
    example_home_blocked
  by simp

end
